theory Spec2Isabelle
  imports Main
begin

section \<open>Strings\<close>

text \<open>
  A JavaScript string is modelled as a \<open>string\<close>: one \<open>char\<close> per UTF-16 code unit,
  restricted to the code units below 256. \<open>length\<close> is then the \<open>length\<close> property.
\<close>

text \<open>The class \<open>\s\<close> of a regular expression, which is also what \<open>trim\<close> strips:
  tab, line feed, vertical tab, form feed, carriage return, space and no-break space.\<close>

definition isSpace :: "char \<Rightarrow> bool" where
  "isSpace c = (of_char c \<in> {9, 10, 11, 12, 13, 32, 160 :: nat})"

text \<open>The class \<open>\w\<close>: ASCII letters, digits and the underscore.\<close>

definition isWord :: "char \<Rightarrow> bool" where
  "isWord c = (let n = of_char c :: nat in
     (48 \<le> n \<and> n \<le> 57) \<or> (65 \<le> n \<and> n \<le> 90) \<or> n = 95 \<or> (97 \<le> n \<and> n \<le> 122))"

text \<open>\<open>toLowerCase\<close> on one code unit below 256: the ASCII capitals and the Latin-1
  capitals (all of 192..222 but the multiplication sign 215) move up by 32.\<close>

definition lowerChar :: "char \<Rightarrow> char" where
  "lowerChar c = (let n = of_char c :: nat in
     if (65 \<le> n \<and> n \<le> 90) \<or> (192 \<le> n \<and> n \<le> 214) \<or> (216 \<le> n \<and> n \<le> 222)
     then char_of (n + 32) else c)"

definition toLowerCase :: "string \<Rightarrow> string" where
  "toLowerCase s = map lowerChar s"

text \<open>\<open>s.indexOf(p) != -1\<close>: \<open>p\<close> occurs in \<open>s\<close> at some position.\<close>

fun contains :: "string \<Rightarrow> string \<Rightarrow> bool" where
  "contains [] p = (p = [])"
| "contains (c # cs) p = (take (length p) (c # cs) = p \<or> contains cs p)"

text \<open>\<open>s.trim()\<close> and a replacement of \<open>/\s*$/\<close> by the empty string.\<close>

definition trimEnd :: "string \<Rightarrow> string" where
  "trimEnd s = rev (dropWhile isSpace (rev s))"

definition trim :: "string \<Rightarrow> string" where
  "trim s = trimEnd (dropWhile isSpace s)"

section \<open>Data model\<close>

text \<open>
  \<open>CommentTag\<close> and \<open>Comment\<close> are classes of the models package; the plugin reads and
  writes these fields of them. A field that JavaScript leaves \<open>undefined\<close> is \<open>None\<close>.
  An absent \<open>tags\<close> array is the empty list: the plugin creates the array before its
  first \<open>push\<close>, and \<open>removeTags\<close> returns at once on an absent one.
  Both classes have a field \<open>text\<close>; they are told apart as \<open>CommentTag.text\<close> and
  \<open>Comment.text\<close>.
\<close>

record CommentTag =
  tagName :: string
  paramName :: "string option"
  "text" :: string

record Comment =
  shortText :: string
  "text" :: string
  returns :: "string option"
  tags :: "CommentTag list"

text \<open>Modelled from the spec: the constructor \<open>new Comment(shortText?)\<close> of the models
  package, which is not part of the plugin's file. It gives a comment with that short
  text (empty when the argument is left out), an empty long text, no \<open>returns\<close> value
  and no tags.\<close>

definition Comment_new :: "string \<Rightarrow> Comment" where
  "Comment_new s = \<lparr>shortText = s, text = [], returns = None, tags = []\<rparr>"

text \<open>Modelled from the spec: \<open>comment.hasTag(tagName)\<close> of the models package: the
  comment has a tag with that name.\<close>

definition hasTag :: "Comment \<Rightarrow> string \<Rightarrow> bool" where
  "hasTag c n = (n \<in> set (map tagName (tags c)))"

text \<open>Modelled from the spec: \<open>comment.getTag(tagName, paramName?)\<close> of the models
  package: the first tag of that name and, when a parameter name is given, of exactly
  that parameter name; \<open>None\<close> when there is none.\<close>

definition tagMatches :: "string \<Rightarrow> string option \<Rightarrow> CommentTag \<Rightarrow> bool" where
  "tagMatches n pn t =
     (tagName t = n \<and> (case pn of None \<Rightarrow> True | Some p \<Rightarrow> paramName t = Some p))"

definition getTag :: "Comment \<Rightarrow> string \<Rightarrow> string option \<Rightarrow> CommentTag option" where
  "getTag c n pn = find (tagMatches n pn) (tags c)"

text \<open>The structure \<open>IModuleComment\<close>; the target reflection is held by its id.\<close>

record IModuleComment =
  reflection :: nat
  fullText :: string
  isPreferred :: bool

section \<open>Module comments\<close>

text \<open>The test \<open>comment.toLowerCase().indexOf('@preferred') != -1\<close>.\<close>

definition isPreferredText :: "string \<Rightarrow> bool" where
  "isPreferredText comment = contains (toLowerCase comment) ''@preferred''"

text \<open>\<open>storeModuleComment(comment, reflection)\<close> on the table \<open>this.comments\<close>, with
  \<open>rid\<close> the id of the reflection.\<close>

definition storeModuleComment ::
  "string \<Rightarrow> nat \<Rightarrow> (nat \<rightharpoonup> IModuleComment) \<Rightarrow> (nat \<rightharpoonup> IModuleComment)" where
  "storeModuleComment comment rid comments =
     (let isPref = isPreferredText comment in
      case comments rid of
        Some info \<Rightarrow>
          if \<not> isPref \<and> (isPreferred info \<or> length (fullText info) > length comment)
          then comments
          else comments(rid \<mapsto> info\<lparr>fullText := comment, isPreferred := isPref\<rparr>)
      | None \<Rightarrow>
          comments(rid \<mapsto> \<lparr>reflection = rid, fullText = comment, isPreferred = isPref\<rparr>))"

text \<open>\<open>onBegin\<close> resets the table.\<close>

definition onBegin :: "nat \<rightharpoonup> IModuleComment" where
  "onBegin = Map.empty"

text \<open>The calls of \<open>storeModuleComment\<close> of one conversion, in the order they are made.\<close>

definition storeAll ::
  "(string \<times> nat) list \<Rightarrow> (nat \<rightharpoonup> IModuleComment) \<Rightarrow> (nat \<rightharpoonup> IModuleComment)" where
  "storeAll cs comments = foldl (\<lambda>t (c, rid). storeModuleComment c rid t) comments cs"

section \<open>The comment parser\<close>

text \<open>\<open>text.replace(/^\s*\/\*+/, '')\<close>: leading white space, a slash and all the stars
  after it go, when the text starts that way.\<close>

definition stripOpen :: "string \<Rightarrow> string" where
  "stripOpen s =
     (case dropWhile isSpace s of
        c # d # r \<Rightarrow>
          if c = CHR ''/'' \<and> d = CHR ''*'' then dropWhile (\<lambda>x. x = CHR ''*'') r else s
      | _ \<Rightarrow> s)"

text \<open>\<open>text.replace(/\*+\/\s*$/, '')\<close>: the match ends at the end of the text, so it is
  read from the back: trailing white space, the slash before it and the whole run of
  stars before the slash go, when the text ends that way.\<close>

definition stripClose :: "string \<Rightarrow> string" where
  "stripClose s =
     (case dropWhile isSpace (rev s) of
        c # d # r \<Rightarrow>
          if c = CHR ''/'' \<and> d = CHR ''*'' then rev (dropWhile (\<lambda>x. x = CHR ''*'') r) else s
      | _ \<Rightarrow> s)"

text \<open>\<open>text.split(/\r\n?|\n/)\<close>: a carriage return with the line feed after it, a lone
  carriage return or a lone line feed ends a line; the result has at least one line.\<close>

fun splitLines :: "string \<Rightarrow> string list" where
  "splitLines [] = [[]]"
| "splitLines (c # cs) =
     (if c = CHR 0x0D then
        (case cs of
           d # ds \<Rightarrow> if d = CHR 0x0A then [] # splitLines ds else [] # splitLines cs
         | [] \<Rightarrow> [] # splitLines cs)
      else if c = CHR 0x0A then [] # splitLines cs
      else (case splitLines cs of l # ls \<Rightarrow> (c # l) # ls | [] \<Rightarrow> [[c]]))"

text \<open>\<open>line.replace(/^\s*\*? ?/, '')\<close>: leading white space, then one star if there is
  one, then one space if there is one.\<close>

definition stripGutter :: "string \<Rightarrow> string" where
  "stripGutter l =
     (let l1 = dropWhile isSpace l;
          l2 = (case l1 of c # r \<Rightarrow> if c = CHR ''*'' then r else l1 | [] \<Rightarrow> l1)
      in (case l2 of c # r \<Rightarrow> if c = CHR '' '' then r else l2 | [] \<Rightarrow> l2))"

text \<open>\<open>/^@(\w+)/.exec(line)\<close>: the word after a leading at-sign, when there is one.\<close>

definition tagWord :: "string \<Rightarrow> string option" where
  "tagWord line =
     (case line of
        c # r \<Rightarrow> if c = CHR ''@'' \<and> takeWhile isWord r \<noteq> [] then Some (takeWhile isWord r) else None
      | [] \<Rightarrow> None)"

text \<open>A replacement of \<open>/^\{[^\}]*\}/\<close> (or of the same with square brackets) by the
  empty string: a leading bracket and all up to its first closing bracket.\<close>

definition stripBracketed :: "char \<Rightarrow> char \<Rightarrow> string \<Rightarrow> string" where
  "stripBracketed opn cls s =
     (case s of
        c # r \<Rightarrow> if c = opn \<and> cls \<in> set r then tl (dropWhile (\<lambda>x. x \<noteq> cls) r) else s
      | [] \<Rightarrow> s)"

definition consumeTypeData :: "string \<Rightarrow> string" where
  "consumeTypeData line =
     trim (stripBracketed (CHR ''['') (CHR '']'') (stripBracketed (CHR ''{'') (CHR ''}'') line))"

text \<open>\<open>/[^\s]+/.exec(line)\<close>: the first run of characters that are not white space.\<close>

definition firstToken :: "string \<Rightarrow> string option" where
  "firstToken line =
     (let t = takeWhile (\<lambda>c. \<not> isSpace c) (dropWhile isSpace line)
      in if t = [] then None else Some t)"

text \<open>
  The state of the loop over the lines: the comment being filled, whether \<open>currentTag\<close>
  is set, and the counter \<open>shortText\<close> (0, 1 or 2). \<open>currentTag\<close> is the tag object
  pushed last, which stays the last element of \<open>comment.tags\<close> for the rest of the
  call; appending to its text is an update of that last element.
\<close>

record ParseState =
  pComment :: Comment
  currentTag :: bool
  shortTextNo :: nat

fun updateLast :: "('a \<Rightarrow> 'a) \<Rightarrow> 'a list \<Rightarrow> 'a list" where
  "updateLast f [] = []"
| "updateLast f [x] = [f x]"
| "updateLast f (x # y # r) = x # updateLast f (y # r)"

text \<open>The part of the loop body that handles a line starting a tag; \<open>w\<close> is the word
  matched after the at-sign. \<open>paramName\<close> is a variable of the loop body, so it is
  \<open>undefined\<close> on every line that sets no parameter name.\<close>

definition parseTag :: "string \<Rightarrow> string \<Rightarrow> CommentTag" where
  "parseTag w line =
     (let tagName0 = toLowerCase w;
          line1 = trim (drop (length tagName0 + 1) line);
          tagName1 = (if tagName0 = ''return'' then ''returns'' else tagName0)
      in if tagName1 = ''param'' then
           (let line2 = consumeTypeData line1 in
            case firstToken line2 of
              Some p \<Rightarrow>
                \<lparr>tagName = tagName1, paramName = Some p,
                 text = consumeTypeData (trim (drop (length p + 1) line2))\<rparr>
            | None \<Rightarrow>
                \<lparr>tagName = tagName1, paramName = None, text = consumeTypeData line2\<rparr>)
         else if tagName1 = ''returns'' then
           \<lparr>tagName = tagName1, paramName = None, text = consumeTypeData line1\<rparr>
         else \<lparr>tagName = tagName1, paramName = None, text = line1\<rparr>)"

text \<open>The two replacements at the head of the loop body: the gutter goes, then the
  trailing white space.\<close>

definition normLine :: "string \<Rightarrow> string" where
  "normLine raw = trimEnd (stripGutter raw)"

text \<open>The body of the loop, for one line of the split text.\<close>

definition parseLine :: "ParseState \<Rightarrow> string \<Rightarrow> ParseState" where
  "parseLine st raw =
     (let line = normLine raw; c = pComment st in
      case tagWord line of
        Some w \<Rightarrow> st\<lparr>pComment := c\<lparr>tags := tags c @ [parseTag w line]\<rparr>, currentTag := True\<rparr>
      | None \<Rightarrow>
          if currentTag st then
            st\<lparr>pComment := c\<lparr>tags := updateLast
              (\<lambda>t. t\<lparr>CommentTag.text := CommentTag.text t @ CHR 0x0A # line\<rparr>) (tags c)\<rparr>\<rparr>
          else if line = [] \<and> shortTextNo st = 0 then st
          else if line = [] \<and> shortTextNo st = 1 then st\<lparr>shortTextNo := 2\<rparr>
          else if shortTextNo st = 2 then
            st\<lparr>pComment := c\<lparr>Comment.text :=
              Comment.text c @ (if Comment.text c = [] then [] else [CHR 0x0A]) @ line\<rparr>\<rparr>
          else
            st\<lparr>pComment := c\<lparr>shortText :=
              shortText c @ (if shortText c = [] then [] else [CHR 0x0A]) @ line\<rparr>,
               shortTextNo := 1\<rparr>)"

text \<open>\<open>parseComment(text, comment)\<close>; the caller that leaves \<open>comment\<close> out passes
  \<open>Comment_new []\<close>.\<close>

definition parseComment :: "string \<Rightarrow> Comment \<Rightarrow> Comment" where
  "parseComment txt comment =
     pComment (foldl parseLine \<lparr>pComment = comment, currentTag = False, shortTextNo = 0\<rparr>
       (splitLines (stripClose (stripOpen txt))))"

section \<open>Removing tags\<close>

text \<open>
  The loop of \<open>removeTags\<close> over the array \<open>ts\<close> of tags: \<open>i\<close> is the index and \<open>c\<close> the
  bound. \<open>ts.splice(i, 1)\<close> drops the element at \<open>i\<close>. The bound starts as the length of
  the array and goes down by one with each element dropped, so \<open>i < c\<close> keeps the index
  inside the array; the loop of the model also ends should the index leave it.
\<close>

function removeTags_loop :: "nat \<Rightarrow> nat \<Rightarrow> CommentTag list \<Rightarrow> string \<Rightarrow> CommentTag list" where
  "removeTags_loop i c ts n =
     (if i < c \<and> i < length ts then
        (if tagName (ts ! i) = n
         then removeTags_loop i (c - 1) (take i ts @ drop (Suc i) ts) n
         else removeTags_loop (Suc i) c ts n)
      else ts)"
  by pat_completeness auto
termination
  by (relation "measure (\<lambda>(i, c, ts, n). c - i)") auto

definition removeTags :: "Comment \<Rightarrow> string \<Rightarrow> Comment" where
  "removeTags comment n = comment\<lparr>tags := removeTags_loop 0 (length (tags comment)) (tags comment) n\<rparr>"

text \<open>\<open>removeTags\<close> on a comment that may be absent: nothing is done to an absent one.\<close>

definition removeTagsOpt :: "Comment option \<Rightarrow> string \<Rightarrow> Comment option" where
  "removeTagsOpt comment n = map_option (\<lambda>c. removeTags c n) comment"

section \<open>Reflections\<close>

text \<open>
  The reflection classes belong to the models package. A \<open>Reflection\<close> has an id, a name,
  a kind (a bit mask), flags and an optional comment; a signature adds its parameters
  and a declaration the signatures that \<open>getAllSignatures\<close> returns. Every comment is
  owned by one reflection, so no two of the comments below are the same object.
\<close>

datatype ReflectionFlag = Private | Protected | Public

record Reflection =
  ident :: nat
  name :: string
  kind :: nat
  flags :: "ReflectionFlag set"
  comment :: "Comment option"

record SignatureReflection = Reflection +
  parameters :: "Reflection list"

record DeclarationReflection = Reflection +
  signatures :: "SignatureReflection list"

text \<open>Modelled from the spec: \<open>reflection.setFlag(flag)\<close> of the models package sets the
  flag on the reflection.\<close>

definition setFlag :: "ReflectionFlag \<Rightarrow> 'a Reflection_scheme \<Rightarrow> 'a Reflection_scheme" where
  "setFlag f r = r\<lparr>flags := insert f (flags r)\<rparr>"

text \<open>Modelled from the spec: \<open>reflection.kindOf(kind)\<close> of the models package: the kind
  of the reflection is one of the kinds of the mask.\<close>

definition kindOf :: "'a Reflection_scheme \<Rightarrow> nat \<Rightarrow> bool" where
  "kindOf r k = (and (kind r) k \<noteq> 0)"

section \<open>Access modifiers\<close>

text \<open>One of the three blocks of \<open>applyAccessModifiers\<close>, for the tag name \<open>n\<close> and the
  flag \<open>f\<close>. The reflection and the comment are changed in place, so both are returned.\<close>

definition applyModifier ::
  "string \<Rightarrow> ReflectionFlag \<Rightarrow> 'a Reflection_scheme \<times> Comment \<Rightarrow> 'a Reflection_scheme \<times> Comment" where
  "applyModifier n f rc =
     (if hasTag (snd rc) n then (setFlag f (fst rc), removeTags (snd rc) n) else rc)"

text \<open>\<open>applyAccessModifiers(reflection, comment)\<close>: the blocks for \<open>private\<close>, \<open>protected\<close>
  and \<open>public\<close>, in this order.\<close>

definition applyAccessModifiers ::
  "'a Reflection_scheme \<Rightarrow> Comment \<Rightarrow> 'a Reflection_scheme \<times> Comment" where
  "applyAccessModifiers r c =
     applyModifier ''public'' Public
       (applyModifier ''protected'' Protected
         (applyModifier ''private'' Private (r, c)))"

section \<open>Type parameters\<close>

text \<open>\<open>tags.indexOf(tag)\<close> for the tag that \<open>getTag\<close> returned: the index of the first
  tag that matches.\<close>

fun indexOfTag :: "(CommentTag \<Rightarrow> bool) \<Rightarrow> CommentTag list \<Rightarrow> nat" where
  "indexOfTag P [] = 0"
| "indexOfTag P (t # ts) = (if P t then 0 else Suc (indexOfTag P ts))"

text \<open>\<open>onCreateTypeParameter\<close>, on the type parameter and the comment of its parent;
  both may be changed, so both are returned.\<close>

definition onCreateTypeParameter ::
  "Reflection \<Rightarrow> Comment option \<Rightarrow> Reflection \<times> Comment option" where
  "onCreateTypeParameter r parentComment =
     (case parentComment of
        None \<Rightarrow> (r, None)
      | Some c \<Rightarrow>
          (case getTag c ''param'' (Some (name r)) of
             None \<Rightarrow> (r, Some c)
           | Some tag \<Rightarrow>
               (let i = indexOfTag (tagMatches ''param'' (Some (name r))) (tags c)
                in (r\<lparr>comment := Some (Comment_new (CommentTag.text tag))\<rparr>,
                    Some (c\<lparr>tags := take i (tags c) @ drop (Suc i) (tags c)\<rparr>)))))"

section \<open>Declarations\<close>

text \<open>
  \<open>onDeclaration\<close>. \<open>rawComment\<close> is what \<open>getComment(event.node)\<close> returned (\<open>None\<close> for
  \<open>null\<close>); \<open>FunctionOrMethod\<close> and \<open>Module\<close> are the two masks of \<open>ReflectionKind\<close>. The
  table of module comments and the reflection are returned. \<open>parseComment\<close> fills the
  comment of the reflection in place when there is one, and a new comment otherwise.
  The first branch assigns nothing: a comment the reflection had is seen changed, being
  the object that was filled, and a new comment is lost.
\<close>

definition onDeclaration ::
  "nat \<Rightarrow> nat \<Rightarrow> string option \<Rightarrow> (nat \<rightharpoonup> IModuleComment) \<Rightarrow> 'a Reflection_scheme
     \<Rightarrow> (nat \<rightharpoonup> IModuleComment) \<times> 'a Reflection_scheme" where
  "onDeclaration FunctionOrMethod Module rawComment comments r =
     (case rawComment of
        None \<Rightarrow> (comments, r)
      | Some raw \<Rightarrow>
          if raw = [] then (comments, r)
          else if kindOf r FunctionOrMethod then
            (case comment r of
               None \<Rightarrow> (comments, fst (applyAccessModifiers r (parseComment raw (Comment_new []))))
             | Some c \<Rightarrow>
                 (let (r1, c1) = applyAccessModifiers r (parseComment raw c)
                  in (comments, r1\<lparr>comment := Some c1\<rparr>)))
          else if kindOf r Module then (storeModuleComment raw (ident r) comments, r)
          else
            (let parsed = parseComment raw (case comment r of None \<Rightarrow> Comment_new [] | Some c \<Rightarrow> c);
                 (r1, c1) = applyAccessModifiers r parsed
             in (comments, r1\<lparr>comment := Some c1\<rparr>)))"

section \<open>Resolving\<close>

text \<open>\<open>a || b\<close> on strings, and on a string that may be \<open>undefined\<close>: the empty string
  and \<open>undefined\<close> give way to \<open>b\<close>.\<close>

definition orString :: "string \<Rightarrow> string \<Rightarrow> string" where
  "orString a b = (if a = [] then b else a)"

definition orStringOpt :: "string option \<Rightarrow> string option \<Rightarrow> string option" where
  "orStringOpt a b = (case a of None \<Rightarrow> b | Some s \<Rightarrow> if s = [] then b else a)"

text \<open>The move of the \<open>returns\<close> tag into the field \<open>returns\<close>, done alike for the comment
  of the declaration and for that of each signature.\<close>

definition moveReturns :: "Comment \<Rightarrow> Comment" where
  "moveReturns c =
     (if hasTag c ''returns'' then
        (case getTag c ''returns'' None of
           Some t \<Rightarrow> removeTags (c\<lparr>returns := Some (CommentTag.text t)\<rparr>) ''returns''
         | None \<Rightarrow> removeTags c ''returns'')
      else c)"

text \<open>The body of the loop over the parameters of a signature.\<close>

definition resolveParameter :: "Comment option \<Rightarrow> Comment option \<Rightarrow> Reflection \<Rightarrow> Reflection" where
  "resolveParameter childComment declComment parameter =
     (let tag1 = (case childComment of
                    Some cc \<Rightarrow> getTag cc ''param'' (Some (name parameter))
                  | None \<Rightarrow> None);
          tag2 = (case declComment of
                    Some c \<Rightarrow> (if tag1 = None then getTag c ''param'' (Some (name parameter)) else tag1)
                  | None \<Rightarrow> tag1)
      in case tag2 of
           Some t \<Rightarrow> parameter\<lparr>comment := Some (Comment_new (CommentTag.text t))\<rparr>
         | None \<Rightarrow> parameter)"

text \<open>The body of the loop over the signatures; \<open>declComment\<close> is the comment of the
  declaration (the variable \<open>comment\<close>).\<close>

definition resolveSignature :: "Comment option \<Rightarrow> SignatureReflection \<Rightarrow> SignatureReflection" where
  "resolveSignature declComment signature =
     (let childComment0 = map_option moveReturns (comment signature);
          childComment1 =
            (case declComment of
               None \<Rightarrow> childComment0
             | Some c \<Rightarrow>
                 (let cc = (case childComment0 of None \<Rightarrow> Comment_new [] | Some x \<Rightarrow> x)
                  in Some (cc\<lparr>shortText := orString (shortText cc) (shortText c),
                               Comment.text := orString (Comment.text cc) (Comment.text c),
                               returns := orStringOpt (returns cc) (returns c)\<rparr>)))
      in signature\<lparr>parameters := map (resolveParameter childComment1 declComment) (parameters signature),
                    comment := removeTagsOpt childComment1 ''param''\<rparr>)"

text \<open>\<open>onResolve\<close> on a declaration reflection.\<close>

definition onResolve :: "DeclarationReflection \<Rightarrow> DeclarationReflection" where
  "onResolve r =
     (if signatures r = [] then r
      else
        (let declComment = map_option moveReturns (comment r)
         in r\<lparr>signatures := map (resolveSignature declComment) (signatures r),
              comment := removeTagsOpt declComment ''param''\<rparr>))"

section \<open>Notions used in the statements\<close>

text \<open>The lines of a comment text as the loop body sees them: markers stripped, split,
  each line without its gutter and its trailing white space.\<close>

definition normLines :: "string \<Rightarrow> string list" where
  "normLines txt = map normLine (splitLines (stripClose (stripOpen txt)))"

text \<open>No line of the text starts a tag.\<close>

definition noTagLine :: "string \<Rightarrow> bool" where
  "noTagLine txt = list_all (\<lambda>l. tagWord l = None) (normLines txt)"

text \<open>A line that starts a tag, and what the lines \<open>ls\<close> that follow a tag line add to
  the text of its tag: each line up to the next tag line, after a line feed.\<close>

definition isTagLine :: "string \<Rightarrow> bool" where
  "isTagLine raw = (tagWord (normLine raw) \<noteq> None)"

definition continuation :: "string list \<Rightarrow> string" where
  "continuation ls = concat (map (\<lambda>m. CHR 0x0A # normLine m) (takeWhile (\<lambda>m. \<not> isTagLine m) ls))"

text \<open>Lines joined by line feeds.\<close>

fun joinLines :: "string list \<Rightarrow> string" where
  "joinLines [] = []"
| "joinLines [l] = l"
| "joinLines (l # m # ls) = l @ CHR 0x0A # joinLines (m # ls)"

text \<open>What the loop body does to the long text with the lines \<open>ls\<close>, one after the
  other: a line feed comes before a line only when the text is not empty.\<close>

fun appendLines :: "string \<Rightarrow> string list \<Rightarrow> string" where
  "appendLines t [] = t"
| "appendLines t (l # ls) = appendLines (t @ (if t = [] then [] else [CHR 0x0A]) @ l) ls"

text \<open>The first paragraph of a list of lines: the lines from the first one that is not
  blank up to the next blank one. \<open>afterBreak\<close> is the rest: empty, or the blank line
  that ends the first paragraph and all the lines after it.\<close>

definition firstParagraph :: "string list \<Rightarrow> string list" where
  "firstParagraph ls = takeWhile (\<lambda>l. l \<noteq> []) (dropWhile (\<lambda>l. l = []) ls)"

definition afterBreak :: "string list \<Rightarrow> string list" where
  "afterBreak ls = dropWhile (\<lambda>l. l \<noteq> []) (dropWhile (\<lambda>l. l = []) ls)"

text \<open>The split in the words of the specification: the short text is all before the
  first blank line that follows content, the long text is all after that line.\<close>

definition specSplit :: "string list \<Rightarrow> string \<times> string" where
  "specSplit ls = (joinLines (firstParagraph ls), joinLines (tl (afterBreak ls)))"

section \<open>Example reflections\<close>

text \<open>A function with two signatures. The comment of the function documents the
  parameter \<open>x\<close> and the return value; so does the comment of the first signature; the
  second signature has no comment.\<close>

definition exParameter :: Reflection where
  "exParameter = \<lparr>ident = 3, name = ''x'', kind = 32768, flags = {}, comment = None\<rparr>"

definition exComment1 :: Comment where
  "exComment1 = \<lparr>shortText = [], text = [], returns = None,
     tags = [\<lparr>tagName = ''param'', paramName = Some ''x'', text = ''sig-level''\<rparr>,
             \<lparr>tagName = ''returns'', paramName = None, text = ''S''\<rparr>]\<rparr>"

definition exSignature1 :: SignatureReflection where
  "exSignature1 = \<lparr>ident = 2, name = ''f'', kind = 4096, flags = {},
     comment = Some exComment1, parameters = [exParameter]\<rparr>"

definition exSignature2 :: SignatureReflection where
  "exSignature2 = \<lparr>ident = 4, name = ''f'', kind = 4096, flags = {},
     comment = None, parameters = [exParameter]\<rparr>"

definition exComment :: Comment where
  "exComment = \<lparr>shortText = ''Does it.'', text = [], returns = None,
     tags = [\<lparr>tagName = ''param'', paramName = Some ''x'', text = ''decl-level''\<rparr>,
             \<lparr>tagName = ''returns'', paramName = None, text = ''R''\<rparr>]\<rparr>"

definition exDeclaration :: DeclarationReflection where
  "exDeclaration = \<lparr>ident = 1, name = ''f'', kind = 64, flags = {},
     comment = Some exComment, signatures = [exSignature1, exSignature2]\<rparr>"

text \<open>A function without a comment, a type parameter \<open>T\<close>, and the comment of the
  generic declaration the type parameter belongs to.\<close>

definition exFunction :: Reflection where
  "exFunction = \<lparr>ident = 1, name = ''f'', kind = 64, flags = {}, comment = None\<rparr>"

definition exTypeParameter :: Reflection where
  "exTypeParameter = \<lparr>ident = 5, name = ''T'', kind = 131072, flags = {}, comment = None\<rparr>"

definition exParamTag :: CommentTag where
  "exParamTag = \<lparr>tagName = ''param'', paramName = Some ''T'', text = ''the element type''\<rparr>"

definition exGenericComment :: Comment where
  "exGenericComment = \<lparr>shortText = ''A list.'', text = [], returns = None, tags = [exParamTag]\<rparr>"

section \<open>Properties of removing tags\<close>

declare removeTags_loop.simps [simp del]

lemma removeTags_loop_filter:
  "c = length ts \<Longrightarrow>
   removeTags_loop i c ts n = take i ts @ filter (\<lambda>t. tagName t \<noteq> n) (drop i ts)"
proof (induction i c ts n rule: removeTags_loop.induct)
  case (1 i c ts n)
  show ?case
  proof (cases "i < length ts")
    case False
    then show ?thesis using "1.prems" by (subst removeTags_loop.simps) simp
  next
    case True
    then have d: "drop i ts = ts ! i # drop (Suc i) ts" by (simp add: Cons_nth_drop_Suc)
    show ?thesis
    proof (cases "tagName (ts ! i) = n")
      case eq: True
      have "removeTags_loop i c ts n = removeTags_loop i (c - 1) (take i ts @ drop (Suc i) ts) n"
        using True eq "1.prems" by (subst removeTags_loop.simps) simp
      also have "\<dots> = take i (take i ts @ drop (Suc i) ts)
            @ filter (\<lambda>t. tagName t \<noteq> n) (drop i (take i ts @ drop (Suc i) ts))"
        using True eq "1.prems" by (intro "1.IH"(1)) auto
      also have "\<dots> = take i ts @ filter (\<lambda>t. tagName t \<noteq> n) (drop i ts)"
        using True eq by (simp add: d)
      finally show ?thesis .
    next
      case ne: False
      have "removeTags_loop i c ts n = removeTags_loop (Suc i) c ts n"
        using True ne "1.prems" by (subst removeTags_loop.simps) simp
      also have "\<dots> = take (Suc i) ts @ filter (\<lambda>t. tagName t \<noteq> n) (drop (Suc i) ts)"
        using True ne "1.prems" by (intro "1.IH"(2)) auto
      also have "\<dots> = take i ts @ filter (\<lambda>t. tagName t \<noteq> n) (drop i ts)"
        using True ne by (simp add: d take_Suc_conv_app_nth)
      finally show ?thesis .
    qed
  qed
qed

lemma tags_removeTags: "tags (removeTags c n) = filter (\<lambda>t. tagName t \<noteq> n) (tags c)"
  by (simp add: removeTags_def removeTags_loop_filter)

lemma removeTags_eq: "removeTags c n = c\<lparr>tags := filter (\<lambda>t. tagName t \<noteq> n) (tags c)\<rparr>"
  by (simp add: removeTags_def removeTags_loop_filter)

lemma removeTags_fields:
  "shortText (removeTags c n) = shortText c"
  "Comment.text (removeTags c n) = Comment.text c"
  "returns (removeTags c n) = returns c"
  by (simp_all add: removeTags_def)

lemma hasTag_iff: "hasTag c n \<longleftrightarrow> (\<exists>t \<in> set (tags c). tagName t = n)"
  by (auto simp: hasTag_def)

lemma filter_no_tag:
  "\<not> hasTag c n \<Longrightarrow> filter (\<lambda>t. tagName t \<noteq> n) (tags c) = tags c"
  by (auto simp: hasTag_iff intro: filter_True)

lemma removeTags_noop: "\<not> hasTag c n \<Longrightarrow> removeTags c n = c"
proof -
  assume "\<not> hasTag c n"
  then have "tags (removeTags c n) = tags c" by (simp add: tags_removeTags filter_no_tag)
  then show ?thesis by (simp add: removeTags_def)
qed

lemma snd_applyModifier: "snd (applyModifier n f rc) = removeTags (snd rc) n"
  by (simp add: applyModifier_def removeTags_noop)

lemma applyModifier_noop: "\<not> hasTag (snd rc) n \<Longrightarrow> applyModifier n f rc = rc"
  by (simp add: applyModifier_def)

lemma tags_applyAccessModifiers:
  "tags (snd (applyAccessModifiers r c))
     = filter (\<lambda>t. tagName t \<notin> {''private'', ''protected'', ''public''}) (tags c)"
proof -
  have "tags (snd (applyAccessModifiers r c))
     = filter (\<lambda>t. tagName t \<noteq> ''public'') (filter (\<lambda>t. tagName t \<noteq> ''protected'')
         (filter (\<lambda>t. tagName t \<noteq> ''private'') (tags c)))"
    by (simp only: applyAccessModifiers_def snd_applyModifier tags_removeTags snd_conv)
  also have "\<dots> = filter (\<lambda>t. tagName t \<notin> {''private'', ''protected'', ''public''}) (tags c)"
    by (auto intro: filter_cong)
  finally show ?thesis .
qed

lemma applyAccessModifiers_no_tags:
  assumes "\<not> hasTag c ''private''" "\<not> hasTag c ''protected''" "\<not> hasTag c ''public''"
  shows "applyAccessModifiers r c = (r, c)"
  using assms by (simp add: applyAccessModifiers_def applyModifier_noop)

section \<open>Properties of the module comment table\<close>

lemma storeModuleComment_other:
  "rid' \<noteq> rid \<Longrightarrow> storeModuleComment c rid' t rid = t rid"
  by (simp add: storeModuleComment_def Let_def split: option.splits)

lemma storeModuleComment_preferred:
  "isPreferredText c \<Longrightarrow>
   \<exists>info. storeModuleComment c rid t rid = Some info \<and> isPreferred info \<and> fullText info = c"
  by (simp add: storeModuleComment_def Let_def split: option.splits)

lemma storeModuleComment_keeps_preferred:
  "t rid = Some info \<Longrightarrow> isPreferred info \<Longrightarrow> \<not> isPreferredText c \<Longrightarrow>
   storeModuleComment c rid t rid = Some info"
  by (simp add: storeModuleComment_def Let_def)

lemma storeAll_snoc:
  "storeAll (cs @ [(c, rid)]) t = storeModuleComment c rid (storeAll cs t)"
  by (simp add: storeAll_def)

text \<open>The test of the code is the test of the words: a text is preferred exactly when
  a part of it is \<open>@preferred\<close> once put in lower case.\<close>

lemma contains_iff: "contains s p \<longleftrightarrow> (\<exists>pre post. s = pre @ p @ post)"
proof (induction s)
  case Nil
  then show ?case by auto
next
  case (Cons c cs)
  show ?case
  proof
    assume "contains (c # cs) p"
    then consider "take (length p) (c # cs) = p" | "contains cs p" by auto
    then show "\<exists>pre post. c # cs = pre @ p @ post"
    proof cases
      case 1
      then have "c # cs = [] @ p @ drop (length p) (c # cs)"
        by (metis append_Nil append_take_drop_id)
      then show ?thesis by blast
    next
      case 2
      then obtain pre post where "cs = pre @ p @ post" using Cons.IH by blast
      then have "c # cs = (c # pre) @ p @ post" by simp
      then show ?thesis by blast
    qed
  next
    assume "\<exists>pre post. c # cs = pre @ p @ post"
    then obtain pre post where e: "c # cs = pre @ p @ post" by blast
    show "contains (c # cs) p"
    proof (cases pre)
      case Nil
      then have "take (length p) (c # cs) = p" using e by simp
      then show ?thesis by simp
    next
      case (Cons a pre')
      then have "cs = pre' @ p @ post" using e by simp
      then have "contains cs p" using Cons.IH by blast
      then show ?thesis by simp
    qed
  qed
qed

lemma contains_map_iff:
  "contains (map f c) p \<longleftrightarrow> (\<exists>pre mid post. c = pre @ mid @ post \<and> map f mid = p)"
proof
  assume "contains (map f c) p"
  then obtain a b where "map f c = a @ p @ b" by (auto simp: contains_iff)
  then have "\<exists>us vs. c = us @ vs \<and> a = map f us \<and> p @ b = map f vs"
    by (simp only: map_eq_append_conv)
  then obtain pre r where 1: "c = pre @ r" "map f r = p @ b" by auto
  from 1(2) have "\<exists>us vs. r = us @ vs \<and> p = map f us \<and> b = map f vs"
    by (simp only: map_eq_append_conv)
  then obtain mid post where 2: "r = mid @ post" "map f mid = p" by auto
  show "\<exists>pre mid post. c = pre @ mid @ post \<and> map f mid = p"
    using 1(1) 2 by auto
next
  assume "\<exists>pre mid post. c = pre @ mid @ post \<and> map f mid = p"
  then obtain pre mid post where "c = pre @ mid @ post" "map f mid = p" by auto
  then have "map f c = map f pre @ p @ map f post" by simp
  then show "contains (map f c) p" unfolding contains_iff by blast
qed

lemma isPreferredText_iff:
  "isPreferredText c \<longleftrightarrow> (\<exists>pre mid post. c = pre @ mid @ post \<and> toLowerCase mid = ''@preferred'')"
  unfolding isPreferredText_def toLowerCase_def by (rule contains_map_iff)

text \<open>
  C1, as the code has it. When the table holds a candidate for the reflection and the
  new candidate ties with it, in preference and in length, the new candidate replaces the
  stored text: the later of the two is kept. A new candidate is dropped, the table
  staying as it is, only when it is not preferred and the stored one is preferred or
  strictly longer; in every other case it replaces the stored text and preference.
\<close>

theorem storeModuleComment_replace_rule:
  assumes "comments rid = Some info"
  shows "(isPreferred info = isPreferredText c \<and> length (fullText info) = length c \<longrightarrow>
            storeModuleComment c rid comments rid = Some (info\<lparr>fullText := c\<rparr>))
       \<and> (\<not> isPreferredText c \<and> (isPreferred info \<or> length c < length (fullText info)) \<longrightarrow>
            storeModuleComment c rid comments = comments)
       \<and> (isPreferredText c \<or> (\<not> isPreferred info \<and> length (fullText info) \<le> length c) \<longrightarrow>
            storeModuleComment c rid comments rid
              = Some (info\<lparr>fullText := c, isPreferred := isPreferredText c\<rparr>))"
  using assms by (auto simp: storeModuleComment_def Let_def)

theorem storeModuleComment_replace_rule_witness:
  "storeModuleComment ''bb'' 0
     [0 \<mapsto> \<lparr>reflection = 0, fullText = ''aa'', isPreferred = False\<rparr>] 0
   = Some \<lparr>reflection = 0, fullText = ''bb'', isPreferred = False\<rparr>
   \<and> storeModuleComment ''bbbb'' 0
     [0 \<mapsto> \<lparr>reflection = 0, fullText = ''aa'', isPreferred = False\<rparr>] 0
   = Some \<lparr>reflection = 0, fullText = ''bbbb'', isPreferred = False\<rparr>
   \<and> storeModuleComment ''b'' 0
     [0 \<mapsto> \<lparr>reflection = 0, fullText = ''aa'', isPreferred = False\<rparr>]
   = [0 \<mapsto> \<lparr>reflection = 0, fullText = ''aa'', isPreferred = False\<rparr>]"
proof -
  let ?info = "\<lparr>reflection = 0, fullText = ''aa'', isPreferred = False\<rparr>"
  have h: "[0 \<mapsto> ?info] (0::nat) = Some ?info" by simp
  have p1: "\<not> isPreferredText ''bb''" by code_simp
  have p2: "\<not> isPreferredText ''bbbb''" by code_simp
  have p3: "\<not> isPreferredText ''b''" by code_simp
  have 1: "storeModuleComment ''bb'' 0 [0 \<mapsto> ?info] 0
      = Some \<lparr>reflection = 0, fullText = ''bb'', isPreferred = False\<rparr>"
    using storeModuleComment_replace_rule [of "[0 \<mapsto> ?info]" 0 ?info "''bb''"] h p1 by simp
  have 2: "storeModuleComment ''bbbb'' 0 [0 \<mapsto> ?info] 0
      = Some \<lparr>reflection = 0, fullText = ''bbbb'', isPreferred = False\<rparr>"
    using storeModuleComment_replace_rule [of "[0 \<mapsto> ?info]" 0 ?info "''bbbb''"] h p2 by simp
  have 3: "storeModuleComment ''b'' 0 [0 \<mapsto> ?info] = [0 \<mapsto> ?info]"
    using storeModuleComment_replace_rule [of "[0 \<mapsto> ?info]" 0 ?info "''b''"] h p3 by simp
  show ?thesis using 1 2 3 by simp
qed

text \<open>
  C1, as the claim states it, fails: after the two candidates \<open>aa\<close> and \<open>bb\<close>, neither
  preferred and both of length two, are recorded in this order for the reflection 0 of
  an empty table, the table holds \<open>bb\<close>, not the earlier \<open>aa\<close>.
\<close>

theorem storeModuleComment_tie_counterexample:
  "\<not> isPreferredText ''aa'' \<and> \<not> isPreferredText ''bb'' \<and> length ''aa'' = length ''bb''
   \<and> map_option fullText (storeAll [(''aa'', 0), (''bb'', 0)] onBegin 0) = Some ''bb''
   \<and> map_option fullText (storeAll [(''aa'', 0), (''bb'', 0)] onBegin 0) \<noteq> Some ''aa''"
  by code_simp

text \<open>
  C4. Whatever the table holds at first, and whatever the order and the lengths of the
  candidates recorded, when one of the candidates recorded for a reflection is preferred
  (its raw text contains \<open>@preferred\<close> in any mix of cases, see \<open>isPreferredText_iff\<close>),
  the candidate the table
  holds for that reflection in the end is marked preferred, and its text is the text of
  a preferred candidate that was recorded for that reflection.
\<close>

theorem storeAll_preferred_wins:
  assumes "(c, rid) \<in> set cs" and "isPreferredText c"
  shows "\<exists>info. storeAll cs comments rid = Some info \<and> isPreferred info
           \<and> isPreferredText (fullText info) \<and> (fullText info, rid) \<in> set cs"
  using assms
proof (induction cs rule: rev_induct)
  case Nil
  then show ?case by simp
next
  case (snoc x xs)
  obtain c' rid' where x: "x = (c', rid')" by (cases x)
  show ?case
  proof (cases "rid' = rid \<and> isPreferredText c'")
    case True
    then show ?thesis
      using storeModuleComment_preferred [of c' rid "storeAll xs comments"]
      by (auto simp: x storeAll_snoc)
  next
    case False
    then have "(c, rid) \<in> set xs" using snoc.prems x by auto
    then obtain info where i: "storeAll xs comments rid = Some info" "isPreferred info"
        "isPreferredText (fullText info)" "(fullText info, rid) \<in> set xs"
      using snoc.IH snoc.prems(2) by blast
    show ?thesis
    proof (cases "rid' = rid")
      case True
      then have "\<not> isPreferredText c'" using False by simp
      then show ?thesis
        using storeModuleComment_keeps_preferred [of "storeAll xs comments" rid info c'] i True
        by (auto simp: x storeAll_snoc)
    next
      case False
      then show ?thesis using i by (auto simp: x storeAll_snoc storeModuleComment_other)
    qed
  qed
qed

theorem storeAll_preferred_wins_witness:
  "\<exists>info. storeAll [(''final @Preferred'', 7), (''short'', 7), (''a much longer block'', 7)]
             onBegin 7 = Some info
     \<and> isPreferred info \<and> isPreferredText (fullText info)
     \<and> (fullText info, 7) \<in> set [(''final @Preferred'', 7), (''short'', 7),
                                  (''a much longer block'', 7::nat)]"
proof -
  have h1: "(''final @Preferred'', 7::nat)
      \<in> set [(''final @Preferred'', 7), (''short'', 7), (''a much longer block'', 7)]"
    by simp
  have h2: "isPreferredText ''final @Preferred''" by code_simp
  show ?thesis using storeAll_preferred_wins [OF h1 h2] .
qed

section \<open>Properties of the access modifiers\<close>

text \<open>
  C7. \<open>applyAccessModifiers\<close> leaves in the comment exactly the tags that are named
  neither \<open>private\<close> nor \<open>protected\<close> nor \<open>public\<close>, in their order: every occurrence of
  the three names goes, not only the first. Run again on the reflection and the comment
  it returned, it returns them as they are: neither the tags nor the flags change.
\<close>

theorem applyAccessModifiers_idempotent:
  assumes "applyAccessModifiers r c = (r', c')"
  shows "tags c' = filter (\<lambda>t. tagName t \<notin> {''private'', ''protected'', ''public''}) (tags c)
       \<and> applyAccessModifiers r' c' = (r', c')"
proof -
  have t: "tags c' = filter (\<lambda>t. tagName t \<notin> {''private'', ''protected'', ''public''}) (tags c)"
    using tags_applyAccessModifiers [of r c] assms by simp
  then have "\<not> hasTag c' ''private''" "\<not> hasTag c' ''protected''" "\<not> hasTag c' ''public''"
    by (auto simp: hasTag_iff)
  then show ?thesis using t applyAccessModifiers_no_tags by simp
qed

theorem applyAccessModifiers_idempotent_witness:
  "tags \<lparr>shortText = ''a'', text = [], returns = None,
         tags = [\<lparr>tagName = ''see'', paramName = None, text = ''b''\<rparr>]\<rparr>
     = filter (\<lambda>t. tagName t \<notin> {''private'', ''protected'', ''public''})
         [\<lparr>tagName = ''private'', paramName = None, text = []\<rparr>,
          \<lparr>tagName = ''see'', paramName = None, text = ''b''\<rparr>,
          \<lparr>tagName = ''private'', paramName = None, text = []\<rparr>]
   \<and> applyAccessModifiers
        \<lparr>ident = 1, name = ''f'', kind = 64, flags = {Private}, comment = None\<rparr>
        \<lparr>shortText = ''a'', text = [], returns = None,
         tags = [\<lparr>tagName = ''see'', paramName = None, text = ''b''\<rparr>]\<rparr>
     = (\<lparr>ident = 1, name = ''f'', kind = 64, flags = {Private}, comment = None\<rparr>,
        \<lparr>shortText = ''a'', text = [], returns = None,
         tags = [\<lparr>tagName = ''see'', paramName = None, text = ''b''\<rparr>]\<rparr>)"
proof -
  let ?r = "\<lparr>ident = 1, name = ''f'', kind = 64, flags = {}, comment = None\<rparr>"
  let ?c = "\<lparr>shortText = ''a'', text = [], returns = None,
         tags = [\<lparr>tagName = ''private'', paramName = None, text = []\<rparr>,
                 \<lparr>tagName = ''see'', paramName = None, text = ''b''\<rparr>,
                 \<lparr>tagName = ''private'', paramName = None, text = []\<rparr>]\<rparr>"
  let ?r' = "\<lparr>ident = 1, name = ''f'', kind = 64, flags = {Private}, comment = None\<rparr>"
  let ?c' = "\<lparr>shortText = ''a'', text = [], returns = None,
         tags = [\<lparr>tagName = ''see'', paramName = None, text = ''b''\<rparr>]\<rparr>"
  have h: "applyAccessModifiers ?r ?c = (?r', ?c')"
    by (simp add: applyAccessModifiers_def applyModifier_def hasTag_def removeTags_eq setFlag_def)
  show ?thesis using applyAccessModifiers_idempotent [OF h] by simp
qed

section \<open>Properties of the type parameter hook\<close>

lemma find_split:
  "find P xs = Some x \<Longrightarrow>
   \<exists>pre post. xs = pre @ x # post \<and> (\<forall>t \<in> set pre. \<not> P t) \<and> P x \<and> indexOfTag P xs = length pre"
proof (induction xs)
  case Nil
  then show ?case by simp
next
  case (Cons a xs)
  show ?case
  proof (cases "P a")
    case True
    then have "a = x" using Cons.prems by simp
    then have "a # xs = [] @ x # xs \<and> (\<forall>t \<in> set []. \<not> P t) \<and> P x \<and> indexOfTag P (a # xs) = length ([] :: CommentTag list)"
      using True by simp
    then show ?thesis by blast
  next
    case False
    then have "find P xs = Some x" using Cons.prems by simp
    then obtain pre post where p: "xs = pre @ x # post" "\<forall>t \<in> set pre. \<not> P t" "P x"
        "indexOfTag P xs = length pre"
      using Cons.IH by blast
    then have "a # xs = (a # pre) @ x # post \<and> (\<forall>t \<in> set (a # pre). \<not> P t) \<and> P x
        \<and> indexOfTag P (a # xs) = length (a # pre)"
      using False by simp
    then show ?thesis by blast
  qed
qed

lemma find_none_notin: "(\<forall>t \<in> set xs. \<not> P t) \<Longrightarrow> find P xs = None"
  by (induction xs) auto

text \<open>
  C8. When the comment of the parent has a \<open>param\<close> tag whose parameter name is the name
  of the type parameter, and \<open>tag\<close> is the first such tag, the type parameter gets a new
  comment whose short text is the text of \<open>tag\<close> (and nothing else), and the tags of the
  parent are what they were without that one occurrence of \<open>tag\<close>: the tags before and
  after it stay, in their order. When no tag after it matches, a sibling type parameter
  of the same name that is created next finds nothing: it keeps its comment and the
  parent keeps its tags.
\<close>

theorem onCreateTypeParameter_consumes:
  assumes "getTag c ''param'' (Some (name r)) = Some tag"
  shows "\<exists>pre post. tags c = pre @ tag # post
           \<and> (\<forall>t \<in> set pre. \<not> tagMatches ''param'' (Some (name r)) t)
           \<and> onCreateTypeParameter r (Some c)
               = (r\<lparr>comment := Some (Comment_new (CommentTag.text tag))\<rparr>,
                  Some (c\<lparr>tags := pre @ post\<rparr>))
           \<and> ((\<forall>t \<in> set post. \<not> tagMatches ''param'' (Some (name r)) t) \<longrightarrow>
                (\<forall>r2. name r2 = name r \<longrightarrow>
                   onCreateTypeParameter r2 (Some (c\<lparr>tags := pre @ post\<rparr>))
                     = (r2, Some (c\<lparr>tags := pre @ post\<rparr>))))"
proof -
  let ?P = "tagMatches ''param'' (Some (name r))"
  from assms have "find ?P (tags c) = Some tag" by (simp add: getTag_def)
  then obtain pre post where p: "tags c = pre @ tag # post" "\<forall>t \<in> set pre. \<not> ?P t"
      "indexOfTag ?P (tags c) = length pre"
    using find_split by blast
  have 1: "onCreateTypeParameter r (Some c)
               = (r\<lparr>comment := Some (Comment_new (CommentTag.text tag))\<rparr>,
                  Some (c\<lparr>tags := pre @ post\<rparr>))"
    using assms p by (simp add: onCreateTypeParameter_def Let_def)
  have 2: "onCreateTypeParameter r2 (Some (c\<lparr>tags := pre @ post\<rparr>))
                     = (r2, Some (c\<lparr>tags := pre @ post\<rparr>))"
    if "\<forall>t \<in> set post. \<not> ?P t" "name r2 = name r" for r2
  proof -
    have "find ?P (pre @ post) = None" using p(2) that(1) by (intro find_none_notin) auto
    then show ?thesis using that(2) by (simp add: onCreateTypeParameter_def getTag_def)
  qed
  show ?thesis using p(1,2) 1 2 by blast
qed

theorem onCreateTypeParameter_consumes_witness:
  "onCreateTypeParameter exTypeParameter (Some exGenericComment)
     = (exTypeParameter\<lparr>comment := Some (Comment_new ''the element type'')\<rparr>,
        Some (exGenericComment\<lparr>tags := []\<rparr>))"
proof -
  have h: "getTag exGenericComment ''param'' (Some (name exTypeParameter)) = Some exParamTag"
    by (simp add: getTag_def tagMatches_def exGenericComment_def exTypeParameter_def
          exParamTag_def)
  have t: "CommentTag.text exParamTag = ''the element type''" by (simp add: exParamTag_def)
  obtain pre post where p: "tags exGenericComment = pre @ exParamTag # post"
      "onCreateTypeParameter exTypeParameter (Some exGenericComment)
         = (exTypeParameter\<lparr>comment := Some (Comment_new (CommentTag.text exParamTag))\<rparr>,
            Some (exGenericComment\<lparr>tags := pre @ post\<rparr>))"
    using onCreateTypeParameter_consumes [OF h] by blast
  have "[exParamTag] = pre @ exParamTag # post" using p(1) by (simp add: exGenericComment_def)
  then have "pre = [] \<and> post = []" by (cases pre) simp_all
  then show ?thesis using p(2) t by simp
qed

section \<open>Properties of the declaration hook\<close>

lemma fst_applyModifier:
  "\<exists>fs. fst (applyModifier n f rc) = (fst rc)\<lparr>flags := fs\<rparr> \<and> flags (fst rc) \<subseteq> fs"
proof (cases "hasTag (snd rc) n")
  case True
  then have "fst (applyModifier n f rc) = (fst rc)\<lparr>flags := insert f (flags (fst rc))\<rparr>"
    by (simp add: applyModifier_def setFlag_def)
  then show ?thesis by blast
next
  case False
  then have "fst (applyModifier n f rc) = (fst rc)\<lparr>flags := flags (fst rc)\<rparr>"
    by (simp add: applyModifier_def)
  then show ?thesis by blast
qed

lemma fst_applyAccessModifiers:
  "\<exists>fs. fst (applyAccessModifiers r c) = r\<lparr>flags := fs\<rparr> \<and> flags r \<subseteq> fs"
proof -
  let ?p1 = "applyModifier ''private'' Private (r, c)"
  let ?p2 = "applyModifier ''protected'' Protected ?p1"
  obtain f1 where 1: "fst ?p1 = r\<lparr>flags := f1\<rparr>" "flags r \<subseteq> f1"
    using fst_applyModifier [of "''private''" Private "(r, c)"] by auto
  obtain f2 where 2: "fst ?p2 = r\<lparr>flags := f2\<rparr>" "flags r \<subseteq> f2"
    using fst_applyModifier [of "''protected''" Protected ?p1] 1 by auto
  obtain f3 where 3: "fst (applyModifier ''public'' Public ?p2) = r\<lparr>flags := f3\<rparr>" "flags r \<subseteq> f3"
    using fst_applyModifier [of "''public''" Public ?p2] 2 by auto
  then show ?thesis unfolding applyAccessModifiers_def by blast
qed

text \<open>
  C10. Take a raw comment that is not empty and a reflection that has no comment. When
  the reflection is a function or a method, \<open>onDeclaration\<close> leaves the table of module
  comments as it is and returns the reflection with no more than its flags changed
  (none is taken away): its comment is still absent, the parsed comment is dropped.
  When it is a module instead, the reflection is returned as it is. Only when it is
  neither does it get the parsed comment, after the access modifiers are applied.
\<close>

theorem onDeclaration_function_comment_dropped:
  assumes "raw \<noteq> []" and "comment r = None"
  shows "(kindOf r FunctionOrMethod \<longrightarrow>
            (\<exists>fs. onDeclaration FunctionOrMethod Module (Some raw) comments r
                     = (comments, r\<lparr>flags := fs\<rparr>) \<and> flags r \<subseteq> fs))
       \<and> (\<not> kindOf r FunctionOrMethod \<and> kindOf r Module \<longrightarrow>
            snd (onDeclaration FunctionOrMethod Module (Some raw) comments r) = r)
       \<and> (\<not> kindOf r FunctionOrMethod \<and> \<not> kindOf r Module \<longrightarrow>
            comment (snd (onDeclaration FunctionOrMethod Module (Some raw) comments r))
              = Some (snd (applyAccessModifiers r (parseComment raw (Comment_new [])))))"
proof -
  obtain fs where "fst (applyAccessModifiers r (parseComment raw (Comment_new []))) = r\<lparr>flags := fs\<rparr>"
      "flags r \<subseteq> fs"
    using fst_applyAccessModifiers by blast
  then show ?thesis using assms
    by (auto simp: onDeclaration_def Let_def split: prod.splits)
qed

theorem onDeclaration_function_comment_dropped_witness:
  "\<exists>fs. onDeclaration 2112 2 (Some ''/** @private */'') onBegin exFunction
           = (onBegin, exFunction\<lparr>flags := fs\<rparr>) \<and> flags exFunction \<subseteq> fs"
proof -
  have h1: "''/** @private */'' \<noteq> []" by simp
  have h2: "comment exFunction = None" by (simp add: exFunction_def)
  have h3: "kindOf exFunction 2112" by (simp add: kindOf_def exFunction_def)
  show ?thesis
    using onDeclaration_function_comment_dropped
      [OF h1 h2, where FunctionOrMethod = 2112 and Module = 2 and comments = onBegin] h3
    by blast
qed

section \<open>Properties of resolving\<close>

lemma find_filter_other:
  "(\<And>t. P t \<Longrightarrow> Q t) \<Longrightarrow> find P (filter Q xs) = find P xs"
  by (induction xs) auto

lemma getTag_param_removeTags_returns:
  "getTag (removeTags c ''returns'') ''param'' pn = getTag c ''param'' pn"
  unfolding getTag_def tags_removeTags by (rule find_filter_other) (simp add: tagMatches_def)

lemma tags_moveReturns:
  "tags (moveReturns c) = filter (\<lambda>t. tagName t \<noteq> ''returns'') (tags c)"
  by (simp add: moveReturns_def tags_removeTags filter_no_tag split: option.splits)

lemma getTag_param_moveReturns:
  "getTag (moveReturns c) ''param'' pn = getTag c ''param'' pn"
  unfolding getTag_def tags_moveReturns by (rule find_filter_other) (simp add: tagMatches_def)

lemma not_hasTag_removeTags: "\<not> hasTag (removeTags c n) n"
  by (simp add: hasTag_iff tags_removeTags)

lemma not_hasTag_moveReturns: "\<not> hasTag (moveReturns c) ''returns''"
  by (simp add: hasTag_iff tags_moveReturns)

lemma hasTag_removeTags_other:
  "hasTag (removeTags c m) n \<longleftrightarrow> hasTag c n \<and> n \<noteq> m"
  by (auto simp: hasTag_iff tags_removeTags)

lemma returns_moveReturns:
  "getTag c ''returns'' None = Some t \<Longrightarrow> returns (moveReturns c) = Some (CommentTag.text t)"
proof -
  assume a: "getTag c ''returns'' None = Some t"
  then have "t \<in> set (tags c)" "tagName t = ''returns''"
    by (auto simp: getTag_def find_Some_iff tagMatches_def)
  then have "hasTag c ''returns''" by (auto simp: hasTag_iff)
  then show ?thesis using a by (simp add: moveReturns_def removeTags_fields)
qed

lemma moveReturns_noop: "\<not> hasTag c ''returns'' \<Longrightarrow> moveReturns c = c"
  by (simp add: moveReturns_def)

lemma parameters_resolveSignature:
  assumes "comment s = Some sc"
  shows "\<exists>cc. tags cc = tags (moveReturns sc)
          \<and> parameters (resolveSignature dco s) = map (resolveParameter (Some cc) dco) (parameters s)"
proof (cases dco)
  case None
  have "tags (moveReturns sc) = tags (moveReturns sc)
      \<and> parameters (resolveSignature dco s)
          = map (resolveParameter (Some (moveReturns sc)) dco) (parameters s)"
    using None assms by (simp add: resolveSignature_def Let_def)
  then show ?thesis by blast
next
  case (Some c)
  let ?m = "moveReturns sc"
  let ?cc = "?m\<lparr>shortText := orString (shortText ?m) (shortText c),
                 Comment.text := orString (Comment.text ?m) (Comment.text c),
                 returns := orStringOpt (returns ?m) (returns c)\<rparr>"
  have "tags ?cc = tags (moveReturns sc)
      \<and> parameters (resolveSignature dco s) = map (resolveParameter (Some ?cc) dco) (parameters s)"
    using Some assms by (simp add: resolveSignature_def Let_def)
  then show ?thesis by blast
qed

lemma resolveParameter_signature_tag:
  "getTag cc ''param'' (Some (name p)) = Some st \<Longrightarrow>
   resolveParameter (Some cc) dco p = p\<lparr>comment := Some (Comment_new (CommentTag.text st))\<rparr>"
  by (cases dco) (simp_all add: resolveParameter_def Let_def)

text \<open>
  C3. Take any parameter of any signature of a declaration. When the comment of the
  signature has a \<open>param\<close> tag with the name of the parameter, and \<open>st\<close> is the first such
  tag, \<open>onResolve\<close> gives the parameter a new comment whose short text is the text of \<open>st\<close>
  and nothing else. This holds whatever the comment of the declaration is, so also when
  it has a \<open>param\<close> tag of that name too: the text of that tag is not used.
\<close>

theorem onResolve_parameter_from_signature:
  assumes "i < length (signatures r)"
    and "j < length (parameters (signatures r ! i))"
    and "comment (signatures r ! i) = Some sc"
    and "getTag sc ''param'' (Some (name (parameters (signatures r ! i) ! j))) = Some st"
  shows "parameters (signatures (onResolve r) ! i) ! j
           = (parameters (signatures r ! i) ! j)\<lparr>comment := Some (Comment_new (CommentTag.text st))\<rparr>"
proof -
  let ?s = "signatures r ! i"
  let ?p = "parameters ?s ! j"
  let ?dc = "map_option moveReturns (comment r)"
  have ne: "signatures r \<noteq> []" using assms(1) by auto
  have s: "signatures (onResolve r) ! i = resolveSignature ?dc ?s"
    using assms(1) ne by (simp add: onResolve_def Let_def)
  obtain cc where cc: "tags cc = tags (moveReturns sc)"
      "parameters (resolveSignature ?dc ?s) = map (resolveParameter (Some cc) ?dc) (parameters ?s)"
    using parameters_resolveSignature [OF assms(3)] by blast
  have "getTag cc ''param'' (Some (name ?p)) = getTag (moveReturns sc) ''param'' (Some (name ?p))"
    using cc(1) by (simp add: getTag_def)
  then have g: "getTag cc ''param'' (Some (name ?p)) = Some st"
    using assms(4) by (simp add: getTag_param_moveReturns)
  have "resolveParameter (Some cc) ?dc ?p = ?p\<lparr>comment := Some (Comment_new (CommentTag.text st))\<rparr>"
    using g by (rule resolveParameter_signature_tag)
  then show ?thesis using s cc(2) assms(2) by simp
qed

theorem onResolve_parameter_from_signature_witness:
  "parameters (signatures (onResolve exDeclaration) ! 0) ! 0
     = exParameter\<lparr>comment := Some (Comment_new ''sig-level'')\<rparr>"
proof -
  let ?st = "\<lparr>tagName = ''param'', paramName = Some ''x'', text = ''sig-level''\<rparr>"
  have h1: "0 < length (signatures exDeclaration)" by (simp add: exDeclaration_def)
  have h2: "0 < length (parameters (signatures exDeclaration ! 0))"
    by (simp add: exDeclaration_def exSignature1_def)
  have h3: "comment (signatures exDeclaration ! 0) = Some exComment1"
    by (simp add: exDeclaration_def exSignature1_def)
  have h4: "getTag exComment1 ''param''
      (Some (name (parameters (signatures exDeclaration ! 0) ! 0))) = Some ?st"
    by (simp add: exDeclaration_def exSignature1_def exParameter_def exComment1_def
          getTag_def tagMatches_def)
  have "parameters (signatures exDeclaration ! 0) ! 0 = exParameter"
    by (simp add: exDeclaration_def exSignature1_def)
  then show ?thesis using onResolve_parameter_from_signature [OF h1 h2 h3 h4] by simp
qed

lemma comment_resolveSignature:
  "\<exists>c'. comment (resolveSignature (Some d) s) = Some c'
     \<and> returns c' = orStringOpt
           (returns (case comment s of None \<Rightarrow> Comment_new [] | Some x \<Rightarrow> moveReturns x)) (returns d)
     \<and> tags c' = filter (\<lambda>t. tagName t \<noteq> ''param'')
           (tags (case comment s of None \<Rightarrow> Comment_new [] | Some x \<Rightarrow> moveReturns x))"
  by (cases "comment s") (simp_all add: resolveSignature_def Let_def removeTagsOpt_def removeTags_eq)

text \<open>
  C2. Take a declaration with two signatures whose comment has a \<open>returns\<close> tag, the first
  of them \<open>dt\<close> (its text is the value R of the claim). The comment of the first
  signature has a \<open>returns\<close> tag of its own, the first of them \<open>t1\<close>, with a text that is
  not empty (the value S); the second signature has no comment, or a comment with no
  \<open>returns\<close> tag and no \<open>returns\<close> value. After \<open>onResolve\<close> the declaration and both
  signatures have comments, the field \<open>returns\<close> of the first signature is the text of
  \<open>t1\<close>, that of the second is the text of \<open>dt\<close>, and none of the three comments has a
  \<open>returns\<close> tag.
\<close>

theorem onResolve_returns:
  assumes "comment r = Some dc"
    and "getTag dc ''returns'' None = Some dt"
    and "signatures r = [s1, s2]"
    and "comment s1 = Some c1"
    and "getTag c1 ''returns'' None = Some t1"
    and "CommentTag.text t1 \<noteq> []"
    and "comment s2 = None \<or> (\<exists>c2. comment s2 = Some c2 \<and> \<not> hasTag c2 ''returns'' \<and> returns c2 = None)"
  shows "\<exists>dc' s1' s2' c1' c2'.
           comment (onResolve r) = Some dc' \<and> signatures (onResolve r) = [s1', s2']
         \<and> comment s1' = Some c1' \<and> comment s2' = Some c2'
         \<and> returns c1' = Some (CommentTag.text t1)
         \<and> returns c2' = Some (CommentTag.text dt)
         \<and> \<not> hasTag dc' ''returns'' \<and> \<not> hasTag c1' ''returns'' \<and> \<not> hasTag c2' ''returns''"
proof -
  let ?d = "moveReturns dc"
  have d: "returns ?d = Some (CommentTag.text dt)" "\<not> hasTag ?d ''returns''"
    using assms(2) by (simp_all add: returns_moveReturns not_hasTag_moveReturns)
  have r: "comment (onResolve r) = Some (removeTags ?d ''param'')"
      "signatures (onResolve r) = [resolveSignature (Some ?d) s1, resolveSignature (Some ?d) s2]"
    using assms(1,3) by (simp_all add: onResolve_def Let_def removeTagsOpt_def)
  obtain c1' where c1': "comment (resolveSignature (Some ?d) s1) = Some c1'"
      "returns c1' = orStringOpt (returns (moveReturns c1)) (returns ?d)"
      "tags c1' = filter (\<lambda>t. tagName t \<noteq> ''param'') (tags (moveReturns c1))"
    using comment_resolveSignature [of ?d s1] assms(4) by auto
  have 1: "returns c1' = Some (CommentTag.text t1)"
    using c1'(2) assms(6) returns_moveReturns [OF assms(5)] by (simp add: orStringOpt_def)
  have n1: "\<not> hasTag c1' ''returns''"
    using c1'(3) by (simp add: hasTag_iff tags_moveReturns)
  let ?cc = "case comment s2 of None \<Rightarrow> Comment_new [] | Some x \<Rightarrow> moveReturns x"
  obtain c2' where c2': "comment (resolveSignature (Some ?d) s2) = Some c2'"
      "returns c2' = orStringOpt (returns ?cc) (returns ?d)"
      "tags c2' = filter (\<lambda>t. tagName t \<noteq> ''param'') (tags ?cc)"
    using comment_resolveSignature [of ?d s2] by auto
  have cc: "returns ?cc = None" "\<not> hasTag ?cc ''returns''"
    using assms(7) by (auto simp: Comment_new_def moveReturns_noop hasTag_def)
  have 2: "returns c2' = Some (CommentTag.text dt)"
    using c2'(2) cc(1) d(1) by (simp add: orStringOpt_def)
  have n2: "\<not> hasTag c2' ''returns''"
    using c2'(3) cc(2) by (simp add: hasTag_iff)
  have 3: "\<not> hasTag (removeTags ?d ''param'') ''returns''"
    using d(2) by (simp add: hasTag_removeTags_other)
  show ?thesis using r c1'(1) c2'(1) 1 n1 2 n2 3 by blast
qed

theorem onResolve_returns_witness:
  "\<exists>dc' s1' s2' c1' c2'.
     comment (onResolve exDeclaration) = Some dc' \<and> signatures (onResolve exDeclaration) = [s1', s2']
     \<and> comment s1' = Some c1' \<and> comment s2' = Some c2'
     \<and> returns c1' = Some ''S'' \<and> returns c2' = Some ''R''
     \<and> \<not> hasTag dc' ''returns'' \<and> \<not> hasTag c1' ''returns'' \<and> \<not> hasTag c2' ''returns''"
proof -
  let ?dt = "\<lparr>tagName = ''returns'', paramName = None, text = ''R''\<rparr>"
  let ?t1 = "\<lparr>tagName = ''returns'', paramName = None, text = ''S''\<rparr>"
  have h1: "comment exDeclaration = Some exComment" by (simp add: exDeclaration_def)
  have h2: "getTag exComment ''returns'' None = Some ?dt"
    by (simp add: exComment_def getTag_def tagMatches_def)
  have h3: "signatures exDeclaration = [exSignature1, exSignature2]"
    by (simp add: exDeclaration_def)
  have h4: "comment exSignature1 = Some exComment1" by (simp add: exSignature1_def)
  have h5: "getTag exComment1 ''returns'' None = Some ?t1"
    by (simp add: exComment1_def getTag_def tagMatches_def)
  have h6: "CommentTag.text ?t1 \<noteq> []" by simp
  have h7: "comment exSignature2 = None
      \<or> (\<exists>c2. comment exSignature2 = Some c2 \<and> \<not> hasTag c2 ''returns'' \<and> returns c2 = None)"
    by (simp add: exSignature2_def)
  show ?thesis using onResolve_returns [OF h1 h2 h3 h4 h5 h6 h7] by simp
qed

section \<open>Properties of the parser\<close>

text \<open>
  C5, as the code has it. On the text of the claim the parser gives the short text
  \<open>A.\<close>, one \<open>param\<close> tag with the parameter name \<open>x\<close> and the text \<open>the value\<close>, and one
  \<open>returns\<close> tag whose text is \<open>done\<close> followed by a line feed: the last line of the text,
  blank once the closing marker is gone, is a line after an open tag and is appended to
  the text of that tag, after a line feed.
\<close>

theorem parseComment_javadoc_example:
  "parseComment ''/** A. \<newline> * @param x the value\<newline> * @returns done\<newline> */''
     (Comment_new [])
   = \<lparr>shortText = ''A.'', text = [], returns = None,
      tags = [\<lparr>tagName = ''param'', paramName = Some ''x'', text = ''the value''\<rparr>,
              \<lparr>tagName = ''returns'', paramName = None, text = ''done\<newline>''\<rparr>]\<rparr>"
  by code_simp

text \<open>
  C5, as the claim states it, fails: the parser gives two tags, \<open>param\<close> and \<open>returns\<close>,
  and the text of the second is not \<open>done\<close>.
\<close>

theorem parseComment_javadoc_counterexample:
  "map tagName (tags (parseComment
       ''/** A. \<newline> * @param x the value\<newline> * @returns done\<newline> */''
       (Comment_new []))) = [''param'', ''returns'']
   \<and> map CommentTag.text (tags (parseComment
       ''/** A. \<newline> * @param x the value\<newline> * @returns done\<newline> */''
       (Comment_new []))) \<noteq> [''the value'', ''done'']"
  by code_simp

lemma joinLines_Cons: "joinLines (l # ls) = l @ concat (map (\<lambda>m. CHR 0x0A # m) ls)"
  by (induction ls arbitrary: l) auto

lemma appendLines_nonempty:
  "t \<noteq> [] \<Longrightarrow> appendLines t ls = t @ concat (map (\<lambda>m. CHR 0x0A # m) ls)"
  by (induction ls arbitrary: t) auto

lemma appendLines_empty: "appendLines [] ls = joinLines (dropWhile (\<lambda>l. l = []) ls)"
proof (induction ls)
  case Nil
  then show ?case by simp
next
  case (Cons l ls)
  then show ?case by (cases "l = []") (simp_all add: appendLines_nonempty joinLines_Cons)
qed

lemma parseLine_plain:
  assumes "tagWord (normLine raw) = None" and "\<not> currentTag st"
  shows "parseLine st raw =
     (let line = normLine raw; c = pComment st in
      if line = [] \<and> shortTextNo st = 0 then st
      else if line = [] \<and> shortTextNo st = 1 then st\<lparr>shortTextNo := 2\<rparr>
      else if shortTextNo st = 2 then
        st\<lparr>pComment := c\<lparr>Comment.text :=
           Comment.text c @ (if Comment.text c = [] then [] else [CHR 0x0A]) @ line\<rparr>\<rparr>
      else
        st\<lparr>pComment := c\<lparr>shortText :=
           shortText c @ (if shortText c = [] then [] else [CHR 0x0A]) @ line\<rparr>,
           shortTextNo := 1\<rparr>)"
  using assms by (simp add: parseLine_def normLine_def Let_def)

lemma prose_phase2:
  assumes "\<not> currentTag st" and "shortTextNo st = 2"
    and "\<forall>l \<in> set ls. tagWord (normLine l) = None"
  shows "foldl parseLine st ls
     = st\<lparr>pComment := (pComment st)\<lparr>Comment.text :=
           appendLines (Comment.text (pComment st)) (map normLine ls)\<rparr>\<rparr>"
  using assms
proof (induction ls arbitrary: st)
  case Nil
  then show ?case by simp
next
  case (Cons a ls)
  let ?st = "parseLine st a"
  have a: "?st = st\<lparr>pComment := (pComment st)\<lparr>Comment.text := Comment.text (pComment st)
        @ (if Comment.text (pComment st) = [] then [] else [CHR 0x0A]) @ normLine a\<rparr>\<rparr>"
    using Cons.prems by (simp add: parseLine_plain Let_def)
  have "foldl parseLine ?st ls = ?st\<lparr>pComment := (pComment ?st)\<lparr>Comment.text :=
           appendLines (Comment.text (pComment ?st)) (map normLine ls)\<rparr>\<rparr>"
    using Cons.prems by (intro Cons.IH) (simp_all add: a)
  then show ?case by (simp add: a)
qed

lemma prose_phase1:
  assumes "\<not> currentTag st" and "shortTextNo st = 1"
    and "Comment.text (pComment st) = []" and "shortText (pComment st) \<noteq> []"
    and "\<forall>l \<in> set ls. tagWord (normLine l) = None"
  shows "pComment (foldl parseLine st ls)
     = (pComment st)\<lparr>shortText := shortText (pComment st)
           @ concat (map (\<lambda>m. CHR 0x0A # m) (takeWhile (\<lambda>l. l \<noteq> []) (map normLine ls))),
         Comment.text := appendLines [] (dropWhile (\<lambda>l. l \<noteq> []) (map normLine ls))\<rparr>"
  using assms
proof (induction ls arbitrary: st)
  case Nil
  then show ?case by simp
next
  case (Cons a ls)
  show ?case
  proof (cases "normLine a = []")
    case True
    let ?st = "st\<lparr>shortTextNo := 2\<rparr>"
    have a: "parseLine st a = ?st" using Cons.prems True by (simp add: parseLine_plain Let_def)
    have "foldl parseLine ?st ls = ?st\<lparr>pComment := (pComment ?st)\<lparr>Comment.text :=
           appendLines (Comment.text (pComment ?st)) (map normLine ls)\<rparr>\<rparr>"
      using Cons.prems by (intro prose_phase2) simp_all
    then show ?thesis using True Cons.prems(3) by (simp add: a)
  next
    case False
    let ?st = "st\<lparr>pComment := (pComment st)\<lparr>shortText :=
           shortText (pComment st) @ CHR 0x0A # normLine a\<rparr>, shortTextNo := 1\<rparr>"
    have a: "parseLine st a = ?st" using Cons.prems False by (simp add: parseLine_plain Let_def)
    have "pComment (foldl parseLine ?st ls)
     = (pComment ?st)\<lparr>shortText := shortText (pComment ?st)
           @ concat (map (\<lambda>m. CHR 0x0A # m) (takeWhile (\<lambda>l. l \<noteq> []) (map normLine ls))),
         Comment.text := appendLines [] (dropWhile (\<lambda>l. l \<noteq> []) (map normLine ls))\<rparr>"
      using Cons.prems by (intro Cons.IH) simp_all
    then show ?thesis using False by (simp add: a)
  qed
qed

lemma prose_phase0:
  assumes "\<not> currentTag st" and "shortTextNo st = 0"
    and "Comment.text (pComment st) = []" and "shortText (pComment st) = []"
    and "\<forall>l \<in> set ls. tagWord (normLine l) = None"
  shows "pComment (foldl parseLine st ls)
     = (pComment st)\<lparr>shortText :=
           joinLines (takeWhile (\<lambda>l. l \<noteq> []) (dropWhile (\<lambda>l. l = []) (map normLine ls))),
         Comment.text := appendLines []
           (dropWhile (\<lambda>l. l \<noteq> []) (dropWhile (\<lambda>l. l = []) (map normLine ls)))\<rparr>"
  using assms
proof (induction ls arbitrary: st)
  case Nil
  then show ?case by simp
next
  case (Cons a ls)
  show ?case
  proof (cases "normLine a = []")
    case True
    have a: "parseLine st a = st" using Cons.prems True by (simp add: parseLine_plain Let_def)
    show ?thesis using Cons.IH [of st] Cons.prems True by (simp add: a)
  next
    case False
    let ?st = "st\<lparr>pComment := (pComment st)\<lparr>shortText := normLine a\<rparr>, shortTextNo := 1\<rparr>"
    have a: "parseLine st a = ?st" using Cons.prems False by (simp add: parseLine_plain Let_def)
    have "pComment (foldl parseLine ?st ls)
     = (pComment ?st)\<lparr>shortText := shortText (pComment ?st)
           @ concat (map (\<lambda>m. CHR 0x0A # m) (takeWhile (\<lambda>l. l \<noteq> []) (map normLine ls))),
         Comment.text := appendLines [] (dropWhile (\<lambda>l. l \<noteq> []) (map normLine ls))\<rparr>"
      using Cons.prems False by (intro prose_phase1) simp_all
    then show ?thesis using False by (simp add: a joinLines_Cons)
  qed
qed

text \<open>
  C6, as the code has it. When no line of the text starts a tag, the parser, filling a
  new comment, drops the blank lines before any content, puts the first paragraph into
  the short text (the whole rest of the body when no blank line follows content) and
  puts into the long text the lines after the blank line that ends the first paragraph,
  from the first of them that is not blank on: blank lines right after the break are
  dropped, later ones are kept. The lines are joined by line feeds; no tag and no
  \<open>returns\<close> value is set.
\<close>

theorem parseComment_prose:
  assumes "noTagLine txt"
  shows "parseComment txt (Comment_new [])
     = \<lparr>shortText = joinLines (firstParagraph (normLines txt)),
        text = joinLines (dropWhile (\<lambda>l. l = []) (afterBreak (normLines txt))),
        returns = None, tags = []\<rparr>"
proof -
  let ?st = "\<lparr>pComment = Comment_new [], currentTag = False, shortTextNo = 0\<rparr>"
  let ?ls = "splitLines (stripClose (stripOpen txt))"
  have "\<forall>l \<in> set ?ls. tagWord (normLine l) = None"
    using assms by (simp add: noTagLine_def normLines_def list_all_iff)
  then have "pComment (foldl parseLine ?st ?ls)
     = (pComment ?st)\<lparr>shortText :=
           joinLines (takeWhile (\<lambda>l. l \<noteq> []) (dropWhile (\<lambda>l. l = []) (map normLine ?ls))),
         Comment.text := appendLines []
           (dropWhile (\<lambda>l. l \<noteq> []) (dropWhile (\<lambda>l. l = []) (map normLine ?ls)))\<rparr>"
    by (intro prose_phase0) (simp_all add: Comment_new_def)
  then show ?thesis
    by (simp add: parseComment_def normLines_def appendLines_empty Comment_new_def
          firstParagraph_def afterBreak_def)
qed

theorem parseComment_prose_witness:
  "parseComment ''/**\<newline> * a\<newline> * b\<newline> *\<newline> *\<newline> * c\<newline> *\<newline> * d */'' (Comment_new [])
     = \<lparr>shortText = ''a\<newline>b'', text = ''c\<newline>\<newline>d'', returns = None, tags = []\<rparr>"
proof -
  let ?txt = "''/**\<newline> * a\<newline> * b\<newline> *\<newline> *\<newline> * c\<newline> *\<newline> * d */''"
  have h: "noTagLine ?txt" by code_simp
  have 1: "joinLines (firstParagraph (normLines ?txt)) = ''a\<newline>b''" by code_simp
  have 2: "joinLines (dropWhile (\<lambda>l. l = []) (afterBreak (normLines ?txt))) = ''c\<newline>\<newline>d''"
    by code_simp
  show ?thesis using parseComment_prose [OF h] by (simp only: 1 2)
qed

text \<open>
  C6, as the claim states it, fails: in the text of the four lines \<open>a\<close>, blank, blank,
  \<open>b\<close>, no line starts a tag, and all after the first blank line is a line feed and \<open>b\<close>,
  but the long text the parser gives is \<open>b\<close> alone.
\<close>

theorem parseComment_prose_counterexample:
  "noTagLine ''a\<newline>\<newline>\<newline>b''
   \<and> snd (specSplit (normLines ''a\<newline>\<newline>\<newline>b'')) = ''\<newline>b''
   \<and> Comment.text (parseComment ''a\<newline>\<newline>\<newline>b'' (Comment_new [])) = ''b''
   \<and> Comment.text (parseComment ''a\<newline>\<newline>\<newline>b'' (Comment_new []))
       \<noteq> snd (specSplit (normLines ''a\<newline>\<newline>\<newline>b''))"
  by code_simp

lemma updateLast_snoc: "updateLast f (xs @ [t]) = xs @ [f t]"
  by (induction f xs rule: updateLast.induct) simp_all

lemma updateLast_append: "q \<noteq> [] \<Longrightarrow> updateLast f (p @ q) = p @ updateLast f q"
proof (induction p)
  case Nil
  then show ?case by simp
next
  case (Cons x p)
  then obtain y ys where "p @ q = y # ys" by (cases "p @ q") auto
  then show ?case using Cons by simp
qed

lemma length_updateLast: "length (updateLast f xs) = length xs"
  by (induction f xs rule: updateLast.induct) simp_all

lemma tags_parseLine:
  "tags (pComment (parseLine st a))
     = (case tagWord (normLine a) of
          Some w \<Rightarrow> tags (pComment st) @ [parseTag w (normLine a)]
        | None \<Rightarrow>
            if currentTag st
            then updateLast (\<lambda>t. t\<lparr>CommentTag.text := CommentTag.text t @ CHR 0x0A # normLine a\<rparr>)
                   (tags (pComment st))
            else tags (pComment st))"
  by (simp add: parseLine_def Let_def split: option.splits)

lemma currentTag_parseLine: "currentTag (parseLine st a) = (currentTag st \<or> isTagLine a)"
  by (auto simp: parseLine_def Let_def isTagLine_def split: option.splits)

lemma length_tags_parseLine:
  "length (tags (pComment (parseLine st a)))
     = length (tags (pComment st)) + (if isTagLine a then 1 else 0)"
  by (simp add: tags_parseLine isTagLine_def length_updateLast split: option.splits)

lemma length_tags_foldl:
  "length (tags (pComment (foldl parseLine st ls)))
     = length (tags (pComment st)) + length (filter isTagLine ls)"
  by (induction ls arbitrary: st) (simp_all add: length_tags_parseLine)

lemma foldl_parseLine_prefix:
  assumes "tags (pComment st) = p @ q" and "q \<noteq> []"
  shows "\<exists>q'. tags (pComment (foldl parseLine st ls)) = p @ q'
           \<and> length q' = length q + length (filter isTagLine ls)"
  using assms
proof (induction ls arbitrary: st q)
  case Nil
  then show ?case by simp
next
  case (Cons a ls)
  have "\<exists>q1. tags (pComment (parseLine st a)) = p @ q1 \<and> q1 \<noteq> []
          \<and> length q1 = length q + (if isTagLine a then 1 else 0)"
  proof (cases "tagWord (normLine a)")
    case (Some w)
    then have "tags (pComment (parseLine st a)) = p @ (q @ [parseTag w (normLine a)])"
      using Cons.prems(1) by (simp add: tags_parseLine)
    moreover have "isTagLine a" using Some by (simp add: isTagLine_def)
    ultimately show ?thesis by (intro exI [of _ "q @ [parseTag w (normLine a)]"]) simp
  next
    case None
    then have n: "\<not> isTagLine a" by (simp add: isTagLine_def)
    show ?thesis
    proof (cases "currentTag st")
      case True
      let ?f = "\<lambda>t. t\<lparr>CommentTag.text := CommentTag.text t @ CHR 0x0A # normLine a\<rparr>"
      have "tags (pComment (parseLine st a)) = p @ updateLast ?f q"
        using None True Cons.prems by (simp add: tags_parseLine updateLast_append)
      moreover have "updateLast ?f q \<noteq> []"
        using Cons.prems(2) length_updateLast [of ?f q] by (metis length_0_conv)
      ultimately show ?thesis using n
        by (intro exI [of _ "updateLast ?f q"]) (simp add: length_updateLast)
    next
      case False
      then have "tags (pComment (parseLine st a)) = p @ q"
        using None Cons.prems(1) by (simp add: tags_parseLine)
      then show ?thesis using n Cons.prems(2) by (intro exI [of _ q]) simp
    qed
  qed
  then obtain q1 where q1: "tags (pComment (parseLine st a)) = p @ q1" "q1 \<noteq> []"
      "length q1 = length q + (if isTagLine a then 1 else 0)"
    by blast
  obtain q' where "tags (pComment (foldl parseLine (parseLine st a) ls)) = p @ q'"
      "length q' = length q1 + length (filter isTagLine ls)"
    using Cons.IH [OF q1(1) q1(2)] by blast
  then show ?case using q1(3) by (intro exI [of _ q']) simp
qed

lemma foldl_parseLine_open_tag:
  assumes "currentTag st" and "tags (pComment st) = xs @ [t]"
  shows "\<exists>after. tags (pComment (foldl parseLine st ls))
            = xs @ t\<lparr>CommentTag.text := CommentTag.text t @ continuation ls\<rparr> # after
          \<and> length after = length (filter isTagLine ls)"
  using assms
proof (induction ls arbitrary: st t)
  case Nil
  then show ?case by (simp add: continuation_def)
next
  case (Cons a ls)
  show ?case
  proof (cases "tagWord (normLine a)")
    case (Some w)
    then have a: "isTagLine a" by (simp add: isTagLine_def)
    have "tags (pComment (parseLine st a)) = (xs @ [t]) @ [parseTag w (normLine a)]"
      using Some Cons.prems(2) by (simp add: tags_parseLine)
    then obtain q' where q': "tags (pComment (foldl parseLine (parseLine st a) ls)) = (xs @ [t]) @ q'"
        "length q' = length [parseTag w (normLine a)] + length (filter isTagLine ls)"
      using foldl_parseLine_prefix [of "parseLine st a" "xs @ [t]" "[parseTag w (normLine a)]" ls]
      by blast
    have "continuation (a # ls) = []" using a by (simp add: continuation_def)
    then show ?thesis using q' a by (intro exI [of _ q']) simp
  next
    case None
    then have n: "\<not> isTagLine a" by (simp add: isTagLine_def)
    let ?t = "t\<lparr>CommentTag.text := CommentTag.text t @ CHR 0x0A # normLine a\<rparr>"
    have 1: "tags (pComment (parseLine st a)) = xs @ [?t]"
      using None Cons.prems by (simp add: tags_parseLine updateLast_snoc)
    have 2: "currentTag (parseLine st a)" using Cons.prems(1) by (simp add: currentTag_parseLine)
    obtain after where af: "tags (pComment (foldl parseLine (parseLine st a) ls))
            = xs @ ?t\<lparr>CommentTag.text := CommentTag.text ?t @ continuation ls\<rparr> # after"
        "length after = length (filter isTagLine ls)"
      using Cons.IH [OF 2 1] by blast
    have "continuation (a # ls) = CHR 0x0A # normLine a @ continuation ls"
      using n by (simp add: continuation_def)
    then show ?thesis using af n by (intro exI [of _ after]) simp
  qed
qed

lemma tagWord_param: "tagWord ''@param'' = Some ''param''"
  by code_simp

lemma parseTag_param:
  "parseTag ''param'' ''@param'' = \<lparr>tagName = ''param'', paramName = None, text = []\<rparr>"
  by code_simp

text \<open>
  C9. Whatever the text and whatever comment is filled, take a line \<open>l\<close> of the text that
  is, without its gutter and its trailing white space, the bare tag \<open>@param\<close>, with the
  lines \<open>pre\<close> before it and the lines \<open>post\<close> after it. The line is not rejected: the
  tags of the comment the parser returns are the tags the comment had and one tag for
  each tag line, in the order of the lines, and the tag at the place of \<open>l\<close> is a \<open>param\<close>
  tag with no parameter name, whose text is what the lines after \<open>l\<close> add to it. (The
  parser is a total function: no step of it can fail.)
\<close>

theorem parseComment_param_without_name:
  assumes "splitLines (stripClose (stripOpen txt)) = pre @ l # post"
    and "normLine l = ''@param''"
  shows "\<exists>before after.
           tags (parseComment txt c)
             = before @ \<lparr>tagName = ''param'', paramName = None, text = continuation post\<rparr> # after
         \<and> length before = length (tags c) + length (filter isTagLine pre)
         \<and> length after = length (filter isTagLine post)"
proof -
  let ?st = "\<lparr>pComment = c, currentTag = False, shortTextNo = 0\<rparr>"
  let ?st1 = "foldl parseLine ?st pre"
  let ?t0 = "\<lparr>tagName = ''param'', paramName = None, text = []\<rparr>"
  have b: "length (tags (pComment ?st1)) = length (tags c) + length (filter isTagLine pre)"
    by (simp add: length_tags_foldl)
  have 1: "tags (pComment (parseLine ?st1 l)) = tags (pComment ?st1) @ [?t0]"
    by (simp add: tags_parseLine assms(2) tagWord_param parseTag_param)
  have 2: "currentTag (parseLine ?st1 l)"
    by (simp add: currentTag_parseLine isTagLine_def assms(2) tagWord_param)
  obtain after where af: "tags (pComment (foldl parseLine (parseLine ?st1 l) post))
        = tags (pComment ?st1) @ ?t0\<lparr>CommentTag.text := CommentTag.text ?t0 @ continuation post\<rparr> # after"
      "length after = length (filter isTagLine post)"
    using foldl_parseLine_open_tag [OF 2 1] by blast
  have "tags (parseComment txt c)
      = tags (pComment ?st1) @ \<lparr>tagName = ''param'', paramName = None, text = continuation post\<rparr> # after"
    using af(1) by (simp add: parseComment_def assms(1))
  then show ?thesis using b af(2) by blast
qed

theorem parseComment_param_without_name_witness:
  "\<exists>before after.
     tags (parseComment ''/**\<newline> * @param\<newline> * more\<newline> * @param  \<newline> */'' (Comment_new ''a''))
       = before @ \<lparr>tagName = ''param'', paramName = None, text = ''\<newline>more''\<rparr> # after
     \<and> length before = 0 \<and> length after = 1"
proof -
  let ?txt = "''/**\<newline> * @param\<newline> * more\<newline> * @param  \<newline> */''"
  let ?post = "['' * more'', '' * @param  '', '' '']"
  have h1: "splitLines (stripClose (stripOpen ?txt)) = [[]] @ '' * @param'' # ?post"
    by code_simp
  have h2: "normLine '' * @param'' = ''@param''" by code_simp
  have c1: "continuation ?post = ''\<newline>more''" by code_simp
  have c2: "length (filter isTagLine ?post) = 1" by code_simp
  have c3: "length (tags (Comment_new ''a'')) + length (filter isTagLine [[]]) = 0" by code_simp
  show ?thesis
    using parseComment_param_without_name [OF h1 h2, where c = "Comment_new ''a''"]
    by (simp only: c1 c2 c3)
qed

end
